theory Spec2Isabelle
  imports Main
begin

section \<open>Organization deletion (adminDelete.handler.ts) and the organizations migration\<close>

text \<open>
  The handler talks to three collaborators: the ORM client (\<open>prisma.team\<close>,
  \<open>prisma.user\<close>), the domain registration service (\<open>deleteDomain\<close>) and the
  RPC layer that raises \<open>TRPCError\<close>. The embedding passes the state of the
  collaborators explicitly: a \<open>world\<close> holds the three tables the handler
  reads and writes, the set of registered domains, and the log of every mutating
  collaborator call in the order in which it was issued. Every operation returns
  its outcome together with the world it leaves behind, so that what a thrown
  error leaves mutated is visible.
\<close>

subsection \<open>Values\<close>

text \<open>The \<open>Team.metadata\<close> column is JSON; \<open>slug\<close>, \<open>username\<close>,
  \<open>parentId\<close> and \<open>organizationId\<close> are nullable (\<open>None\<close> is NULL).
  The \<open>id\<close> columns are \<open>user_id\<close> and \<open>team_id\<close> here, a
  record field being a constant of its own and \<open>id\<close> the identity function.\<close>

datatype json =
    JNull
  | JBool bool
  | JNum int
  | JStr string
  | JArr "json list"
  | JObj "(string \<times> json) list"

record user =
  user_id :: int
  username :: "string option"
  email :: string
  organizationId :: "int option"

record team =
  team_id :: int
  name :: string
  slug :: "string option"
  metadata :: "json option"
  parentId :: "int option"

record membership =
  teamId :: int
  userId :: int

text \<open>What \<open>include: { members: { select: { user: true } } }\<close> returns:
  the team's own columns and, for each membership, the joined user.\<close>

record member =
  user :: user

record found_org = team +
  members :: "member list"

record ctx =
  ctx_user :: user

record TAdminDeleteInput =
  orgId :: int

record AdminDeleteOption =
  ctx :: ctx
  input :: TAdminDeleteInput

record result =
  ok :: bool
  message :: string

subsection \<open>Collaborator calls, errors, the world\<close>

datatype call =
    DeleteDomain string
  | UserUpdate int string
  | TeamDelete int

datatype error =
    TRPCError string string
  | ValueOutOfRange int
  | ExternalServiceFailure call
  | PersistenceFailure call

record world =
  teams :: "team list"
  memberships :: "membership list"
  users :: "user list"
  domains :: "string list"
  calls :: "call list"

text \<open>Whether a mutating collaborator call throws is not decided by the handler
  (network, constraint violations, the registrar's answer). It is a parameter:
  a fault oracle that sees the world, log included, at the moment of the call.\<close>

type_synonym faults = "world \<Rightarrow> call \<Rightarrow> bool"

fun is_DeleteDomain :: "call \<Rightarrow> bool" where
  "is_DeleteDomain (DeleteDomain s) = True"
| "is_DeleteDomain c = False"

fun is_UserUpdate :: "call \<Rightarrow> bool" where
  "is_UserUpdate (UserUpdate i n) = True"
| "is_UserUpdate c = False"

subsection \<open>Template literals: a number in a string\<close>

text \<open>\<open>`${user.id}`\<close> renders the number in decimal, with a leading minus
  sign when it is negative. Identifiers are integers (INTEGER columns), far below
  the magnitude from which a number is printed with an exponent. \<open>digit_char\<close>
  is only applied to numbers below ten.\<close>

definition digit_char :: "nat \<Rightarrow> char" where
  "digit_char d = ''0123456789'' ! d"

fun digits :: "nat \<Rightarrow> string" where
  "digits n = (if n < 10 then [digit_char n] else digits (n div 10) @ [digit_char (n mod 10)])"

declare digits.simps [simp del]

definition show_int :: "int \<Rightarrow> string" where
  "show_int i = (if i < 0 then CHR ''-'' # digits (nat (- i)) else digits (nat i))"

text \<open>\<open>user.username || ""\<close>: null and the empty string are both falsy.\<close>

definition or_empty :: "string option \<Rightarrow> string" where
  "or_empty u = (case u of None \<Rightarrow> [] | Some s \<Rightarrow> (if s = [] then [] else s))"

text \<open>The value written by \<open>renameUsers\<close>:
  \<open>`${user.username || ""}-${user.id}`\<close>.\<close>

definition renamed :: "user \<Rightarrow> string" where
  "renamed u = or_empty (username u) @ ''-'' @ show_int (user_id u)"

subsection \<open>\<open>prisma.team.findUnique\<close>\<close>

text \<open>The filter \<open>metadata: { path: ["isOrganization"], equals: true }\<close>
  follows the path through JSON objects and compares what it finds with the
  JSON value \<open>true\<close>.\<close>

fun json_path :: "string list \<Rightarrow> json \<Rightarrow> json option" where
  "json_path [] j = Some j"
| "json_path (k # ks) (JObj kvs) =
     (case map_of kvs k of None \<Rightarrow> None | Some v \<Rightarrow> json_path ks v)"
| "json_path (k # ks) j = None"

definition isOrganization :: "team \<Rightarrow> bool" where
  "isOrganization t =
     (case metadata t of
        None \<Rightarrow> False
      | Some j \<Rightarrow> json_path [''isOrganization''] j = Some (JBool True))"

definition joined_user :: "world \<Rightarrow> membership \<Rightarrow> member list" where
  "joined_user w m =
     (case find (\<lambda>u. user_id u = userId m) (users w) of
        None \<Rightarrow> []
      | Some u \<Rightarrow> [\<lparr>user = u\<rparr>])"

definition team_members :: "world \<Rightarrow> int \<Rightarrow> member list" where
  "team_members w tid =
     concat (map (joined_user w) (filter (\<lambda>m. teamId m = tid) (memberships w)))"

text \<open>The identifier is a number of the caller's, handed to the lookup as it
  is, and \<open>Team.id\<close> is an INTEGER column: for a number that does not fit in 32
  bits (signed) the ORM raises its range error instead of querying. The later calls
  take this identifier once the lookup has passed, and identifiers read from
  stored rows.\<close>

definition int4 :: "int \<Rightarrow> bool" where
  "int4 i = (- 2147483648 \<le> i \<and> i \<le> 2147483647)"

definition team_findUnique :: "int \<Rightarrow> world \<Rightarrow> error + found_org option" where
  "team_findUnique i w =
     (if int4 i
      then Inr (case find (\<lambda>t. team_id t = i \<and> isOrganization t) (teams w) of
                  None \<Rightarrow> None
                | Some t \<Rightarrow>
                    Some (team.extend t (found_org.fields (team_members w (team_id t)))))
      else Inl (ValueOutOfRange i))"

subsection \<open>The mutating collaborator calls\<close>

definition logged :: "call \<Rightarrow> world \<Rightarrow> world" where
  "logged c w = w\<lparr>calls := calls w @ [c]\<rparr>"

text \<open>Modelled from the spec: \<open>deleteDomain\<close> is imported from
  \<open>@calcom/lib/vercel/organizationDomain\<close>, whose body the handler does not
  show. The spec gives it as \<open>releaseDomain(slug) -> void\<close>, which either
  releases the domain or fails, the failure propagating.\<close>

definition deleteDomain :: "faults \<Rightarrow> string \<Rightarrow> world \<Rightarrow> (error + unit) \<times> world" where
  "deleteDomain f s w =
     (if f w (DeleteDomain s)
      then (Inl (ExternalServiceFailure (DeleteDomain s)), logged (DeleteDomain s) w)
      else (Inr (), (logged (DeleteDomain s) w)\<lparr>domains := removeAll s (domains w)\<rparr>))"

text \<open>\<open>prisma.user.update({ where: { id }, data: { username } })\<close> throws
  when no row has the identifier.\<close>

definition user_update :: "faults \<Rightarrow> int \<Rightarrow> string \<Rightarrow> world \<Rightarrow> (error + unit) \<times> world" where
  "user_update f i n w =
     (if f w (UserUpdate i n) \<or> \<not> (\<exists>u \<in> set (users w). user_id u = i)
      then (Inl (PersistenceFailure (UserUpdate i n)), logged (UserUpdate i n) w)
      else (Inr (),
            (logged (UserUpdate i n) w)
              \<lparr>users := map (\<lambda>u. if user_id u = i then u\<lparr>username := Some n\<rparr> else u)
                             (users w)\<rparr>))"

text \<open>The teams removed with team \<open>i\<close>: the migration declares
  \<open>Team_parentId_fkey ... ON DELETE CASCADE\<close>, so the teams below a deleted team
  go with it.\<close>

function doomed :: "team list \<Rightarrow> int list \<Rightarrow> int list" where
  "doomed ts ids =
     (case filter (\<lambda>t. (case parentId t of None \<Rightarrow> False | Some p \<Rightarrow> p \<in> set ids)
                        \<and> team_id t \<notin> set ids) ts of
        [] \<Rightarrow> ids
      | t # _ \<Rightarrow> doomed ts (team_id t # ids))"
  by pat_completeness auto

termination doomed
proof (relation "measure (\<lambda>(ts, ids). card (team_id ` set ts - set ids))")
  show "wf (measure (\<lambda>(ts, ids). card (team_id ` set ts - set ids)))" by simp
next
  fix ts :: "team list" and ids :: "int list" and t rest
  assume eq: "filter (\<lambda>t. (case parentId t of None \<Rightarrow> False | Some p \<Rightarrow> p \<in> set ids)
                        \<and> team_id t \<notin> set ids) ts = t # rest"
  have "t \<in> set (filter (\<lambda>t. (case parentId t of None \<Rightarrow> False | Some p \<Rightarrow> p \<in> set ids)
                        \<and> team_id t \<notin> set ids) ts)"
    unfolding eq by simp
  then have mem: "team_id t \<in> team_id ` set ts - set ids" by auto
  have "team_id ` set ts - set (team_id t # ids) = (team_id ` set ts - set ids) - {team_id t}"
    by auto
  moreover have "card ((team_id ` set ts - set ids) - {team_id t}) < card (team_id ` set ts - set ids)"
    using mem by (intro card_Diff1_less) auto
  ultimately show "((ts, team_id t # ids), (ts, ids)) \<in> measure (\<lambda>(ts, ids). card (team_id ` set ts - set ids))"
    by simp
qed

declare doomed.simps [simp del]

text \<open>Users affiliated to a deleted team lose the affiliation: the migration
  declares \<open>users_organizationId_fkey ... ON DELETE SET NULL\<close>.\<close>

definition unaffiliate :: "int list \<Rightarrow> user \<Rightarrow> user" where
  "unaffiliate dead u =
     (case organizationId u of
        None \<Rightarrow> u
      | Some p \<Rightarrow> (if p \<in> set dead then u\<lparr>organizationId := None\<rparr> else u))"

text \<open>Modelled from the spec: the foreign key of Membership to Team is declared by
  an earlier migration, not by this one. The spec says that Membership rows are
  removed as a consequence of Team deletion (cascade, delegated to the store).\<close>

definition cascade_memberships :: "int list \<Rightarrow> membership list \<Rightarrow> membership list" where
  "cascade_memberships dead ms = filter (\<lambda>m. teamId m \<notin> set dead) ms"

text \<open>\<open>prisma.team.delete({ where: { id } })\<close> throws when no team has
  the identifier. Otherwise the team goes, and the store follows its foreign
  keys.\<close>

definition team_delete :: "faults \<Rightarrow> int \<Rightarrow> world \<Rightarrow> (error + unit) \<times> world" where
  "team_delete f i w =
     (if f w (TeamDelete i) \<or> \<not> (\<exists>t \<in> set (teams w). team_id t = i)
      then (Inl (PersistenceFailure (TeamDelete i)), logged (TeamDelete i) w)
      else (let dead = doomed (teams w) [i] in
            (Inr (),
             (logged (TeamDelete i) w)
               \<lparr>teams := filter (\<lambda>t. team_id t \<notin> set dead) (teams w),
                memberships := cascade_memberships dead (memberships w),
                users := map (unaffiliate dead) (users w)\<rparr>)))"

subsection \<open>The handler\<close>

text \<open>The loop of \<open>renameUsers\<close>: one awaited update per user, in list
  order; the first update that throws ends the loop.\<close>

fun renameUsers :: "faults \<Rightarrow> user list \<Rightarrow> world \<Rightarrow> (error + unit) \<times> world" where
  "renameUsers f [] w = (Inr (), w)"
| "renameUsers f (u # us) w =
     (case user_update f (user_id u) (renamed u) w of
        (Inl e, w') \<Rightarrow> (Inl e, w')
      | (Inr _, w') \<Rightarrow> renameUsers f us w')"

text \<open>\<open>if (foundOrg.slug) await deleteDomain(foundOrg.slug)\<close>: a null
  or empty slug is falsy.\<close>

definition releaseSlug :: "faults \<Rightarrow> string option \<Rightarrow> world \<Rightarrow> (error + unit) \<times> world" where
  "releaseSlug f sl w =
     (case sl of
        None \<Rightarrow> (Inr (), w)
      | Some s \<Rightarrow> (if s = [] then (Inr (), w) else deleteDomain f s w))"

definition forbidden :: error where
  "forbidden = TRPCError ''FORBIDDEN'' ''This team isnt a org or doesnt exist''"

definition adminDeleteHandler ::
  "faults \<Rightarrow> AdminDeleteOption \<Rightarrow> world \<Rightarrow> (error + result) \<times> world" where
  "adminDeleteHandler f opts w =
     (case team_findUnique (orgId (input opts)) w of
        Inl e \<Rightarrow> (Inl e, w)
      | Inr None \<Rightarrow> (Inl forbidden, w)
      | Inr (Some foundOrg) \<Rightarrow>
          (case releaseSlug f (slug foundOrg) w of
             (Inl e, w1) \<Rightarrow> (Inl e, w1)
           | (Inr _, w1) \<Rightarrow>
               (case renameUsers f (map user (members foundOrg)) w1 of
                  (Inl e, w2) \<Rightarrow> (Inl e, w2)
                | (Inr _, w2) \<Rightarrow>
                    (case team_delete f (orgId (input opts)) w2 of
                       (Inl e, w3) \<Rightarrow> (Inl e, w3)
                     | (Inr _, w3) \<Rightarrow>
                         (Inr \<lparr>ok = True,
                               message = ''Organization '' @ name foundOrg @ '' deleted.''\<rparr>,
                          w3)))))"

subsection \<open>What the handler leaves in the tables\<close>

text \<open>The row a point lookup by identifier returns, the effect of one rename
  on a row, of a list of renames on the table, and the call a rename issues.\<close>

definition lookup_user :: "world \<Rightarrow> int \<Rightarrow> user option" where
  "lookup_user w i = find (\<lambda>u. user_id u = i) (users w)"

definition rename_row :: "user \<Rightarrow> user \<Rightarrow> user" where
  "rename_row u r = (if user_id r = user_id u then r\<lparr>username := Some (renamed u)\<rparr> else r)"

definition rename_rows :: "user list \<Rightarrow> user list \<Rightarrow> user list" where
  "rename_rows us rs = fold (\<lambda>u. map (rename_row u)) us rs"

definition update_call :: "user \<Rightarrow> call" where
  "update_call u = UserUpdate (user_id u) (renamed u)"

text \<open>The username the spec writes: \<open>"${u ?? ""}-${id}"\<close>.\<close>

definition spec_username :: "string option \<Rightarrow> int \<Rightarrow> string" where
  "spec_username u i = (case u of None \<Rightarrow> [] | Some s \<Rightarrow> s) @ ''-'' @ show_int i"

text \<open>Reading a decimal numeral back.\<close>

definition digit_val :: "char \<Rightarrow> nat" where
  "digit_val c = of_char c - 48"

definition undigits :: "string \<Rightarrow> nat" where
  "undigits cs = foldl (\<lambda>a c. 10 * a + digit_val c) 0 cs"

subsection \<open>The calls of the domain step\<close>

definition release_calls :: "string option \<Rightarrow> call list" where
  "release_calls sl = (case sl of None \<Rightarrow> [] | Some s \<Rightarrow> (if s = [] then [] else [DeleteDomain s]))"

subsection \<open>The migration \<open>20230518173925_organizations\<close>\<close>

text \<open>A database is its tables (columns and rows), its indexes and its foreign
  keys. A row maps column names to values; \<open>None\<close> is NULL. Each statement
  of the migration is a function on the database that fails as the store would
  (the migration runs in one transaction: a failure leaves the database as it
  was).\<close>

datatype sqlval = SInt int | SText string

type_synonym row = "(string \<times> sqlval option) list"

record column =
  cname :: string
  ctype :: string
  notnull :: bool

record table =
  tname :: string
  columns :: "column list"
  rows :: "row list"

record index =
  iname :: string
  itable :: string
  icolumns :: "string list"
  iunique :: bool

datatype fk_action = NO_ACTION | RESTRICT | CASCADE | SET_NULL

record foreign_key =
  fname :: string
  ftable :: string
  fcolumns :: "string list"
  rtable :: string
  rcolumns :: "string list"
  on_delete :: fk_action
  on_update :: fk_action

record database =
  tables :: "table list"
  indexes :: "index list"
  foreign_keys :: "foreign_key list"

datatype sql_error =
    UndefinedObject string
  | UndefinedTable string
  | UndefinedColumn string
  | DuplicateObject string
  | DuplicateColumn string
  | NotNullViolation string
  | UniqueViolation string
  | ForeignKeyViolation string

definition cell :: "row \<Rightarrow> string \<Rightarrow> sqlval option" where
  "cell r c = (case map_of r c of None \<Rightarrow> None | Some v \<Rightarrow> v)"

text \<open>Two rows collide on a unique index when they agree on every indexed
  column and none of these values is NULL (NULLs are distinct).\<close>

definition conflict :: "string list \<Rightarrow> row \<Rightarrow> row \<Rightarrow> bool" where
  "conflict cols r r' = (\<forall>c \<in> set cols. cell r c \<noteq> None \<and> cell r c = cell r' c)"

fun unique_holds :: "string list \<Rightarrow> row list \<Rightarrow> bool" where
  "unique_holds cols [] = True"
| "unique_holds cols (r # rs) = ((\<forall>r' \<in> set rs. \<not> conflict cols r r') \<and> unique_holds cols rs)"

definition find_table :: "string \<Rightarrow> database \<Rightarrow> table option" where
  "find_table t db = find (\<lambda>x. tname x = t) (tables db)"

definition has_columns :: "table \<Rightarrow> string list \<Rightarrow> bool" where
  "has_columns tb cs = (\<forall>c \<in> set cs. c \<in> set (map cname (columns tb)))"

definition drop_index :: "string \<Rightarrow> database \<Rightarrow> sql_error + database" where
  "drop_index n db =
     (if \<exists>i \<in> set (indexes db). iname i = n
      then Inr (db\<lparr>indexes := filter (\<lambda>i. iname i \<noteq> n) (indexes db)\<rparr>)
      else Inl (UndefinedObject n))"

definition with_column :: "column \<Rightarrow> table \<Rightarrow> table" where
  "with_column c x =
     x\<lparr>columns := columns x @ [c], rows := map (\<lambda>r. r @ [(cname c, None)]) (rows x)\<rparr>"

definition add_column :: "string \<Rightarrow> column \<Rightarrow> database \<Rightarrow> sql_error + database" where
  "add_column t c db =
     (case find_table t db of
        None \<Rightarrow> Inl (UndefinedTable t)
      | Some tb \<Rightarrow>
          if cname c \<in> set (map cname (columns tb)) then Inl (DuplicateColumn (cname c))
          else if notnull c \<and> rows tb \<noteq> [] then Inl (NotNullViolation (cname c))
          else Inr (db\<lparr>tables :=
                 map (\<lambda>x. if tname x = t then with_column c x else x) (tables db)\<rparr>))"

definition create_index ::
  "bool \<Rightarrow> string \<Rightarrow> string \<Rightarrow> string list \<Rightarrow> database \<Rightarrow> sql_error + database" where
  "create_index uniq n t cs db =
     (if \<exists>i \<in> set (indexes db). iname i = n then Inl (DuplicateObject n)
      else case find_table t db of
        None \<Rightarrow> Inl (UndefinedTable t)
      | Some tb \<Rightarrow>
          if \<not> has_columns tb cs then Inl (UndefinedColumn t)
          else if uniq \<and> \<not> unique_holds cs (rows tb) then Inl (UniqueViolation n)
          else Inr (db\<lparr>indexes := indexes db @
                      [\<lparr>iname = n, itable = t, icolumns = cs, iunique = uniq\<rparr>]\<rparr>))"

definition fk_holds :: "foreign_key \<Rightarrow> table \<Rightarrow> table \<Rightarrow> bool" where
  "fk_holds fk tb rb =
     (\<forall>r \<in> set (rows tb).
        (\<exists>c \<in> set (fcolumns fk). cell r c = None) \<or>
        (\<exists>r' \<in> set (rows rb). map (cell r) (fcolumns fk) = map (cell r') (rcolumns fk)))"

definition add_foreign_key :: "foreign_key \<Rightarrow> database \<Rightarrow> sql_error + database" where
  "add_foreign_key fk db =
     (if \<exists>k \<in> set (foreign_keys db). fname k = fname fk \<and> ftable k = ftable fk
      then Inl (DuplicateObject (fname fk))
      else case (find_table (ftable fk) db, find_table (rtable fk) db) of
        (None, _) \<Rightarrow> Inl (UndefinedTable (ftable fk))
      | (Some tb, None) \<Rightarrow> Inl (UndefinedTable (rtable fk))
      | (Some tb, Some rb) \<Rightarrow>
          if \<not> has_columns tb (fcolumns fk) then Inl (UndefinedColumn (ftable fk))
          else if \<not> has_columns rb (rcolumns fk) then Inl (UndefinedColumn (rtable fk))
          else if \<not> fk_holds fk tb rb then Inl (ForeignKeyViolation (fname fk))
          else Inr (db\<lparr>foreign_keys := foreign_keys db @ [fk]\<rparr>))"

fun run :: "(database \<Rightarrow> sql_error + database) list \<Rightarrow> database \<Rightarrow> sql_error + database" where
  "run [] db = Inr db"
| "run (s # ss) db = (case s db of Inl e \<Rightarrow> Inl e | Inr db' \<Rightarrow> run ss db')"

definition users_organizationId_fkey :: foreign_key where
  "users_organizationId_fkey =
     \<lparr>fname = ''users_organizationId_fkey'', ftable = ''users'',
      fcolumns = [''organizationId''], rtable = ''Team'', rcolumns = [''id''],
      on_delete = SET_NULL, on_update = CASCADE\<rparr>"

definition Team_parentId_fkey :: foreign_key where
  "Team_parentId_fkey =
     \<lparr>fname = ''Team_parentId_fkey'', ftable = ''Team'',
      fcolumns = [''parentId''], rtable = ''Team'', rcolumns = [''id''],
      on_delete = CASCADE, on_update = CASCADE\<rparr>"

definition migration :: "database \<Rightarrow> sql_error + database" where
  "migration =
     run [drop_index ''users_email_idx'',
          drop_index ''users_username_key'',
          add_column ''Team'' \<lparr>cname = ''parentId'', ctype = ''INTEGER'', notnull = False\<rparr>,
          add_column ''users'' \<lparr>cname = ''organizationId'', ctype = ''INTEGER'', notnull = False\<rparr>,
          create_index True ''users_email_username_key'' ''users'' [''email'', ''username''],
          create_index True ''users_username_organizationId_key'' ''users''
            [''username'', ''organizationId''],
          add_foreign_key users_organizationId_fkey,
          add_foreign_key Team_parentId_fkey]"

text \<open>The rows a table may hold together, as far as the unique indexes of the
  database go.\<close>

definition admits :: "database \<Rightarrow> string \<Rightarrow> row list \<Rightarrow> bool" where
  "admits db t rs =
     (\<forall>i \<in> set (indexes db). itable i = t \<and> iunique i \<longrightarrow> unique_holds (icolumns i) rs)"

subsection \<open>Scenarios\<close>

text \<open>The organization of the spec's scenario: Acme, identifier 42, slug
  \<open>acme\<close>, members alice (1) and a user without username (2).\<close>

definition acme_team :: team where
  "acme_team = \<lparr>team_id = 42, name = ''Acme'', slug = Some ''acme'',
                 metadata = Some (JObj [(''isOrganization'', JBool True)]), parentId = None\<rparr>"

definition alice :: user where
  "alice = \<lparr>user_id = 1, username = Some ''alice'', email = ''alice@example.com'',
             organizationId = Some 42\<rparr>"

definition nameless :: user where
  "nameless = \<lparr>user_id = 2, username = None, email = ''bob@example.com'',
                organizationId = Some 42\<rparr>"

definition acme :: world where
  "acme = \<lparr>teams = [acme_team],
            memberships = [\<lparr>teamId = 42, userId = 1\<rparr>, \<lparr>teamId = 42, userId = 2\<rparr>],
            users = [alice, nameless],
            domains = [''acme''],
            calls = []\<rparr>"

definition acme_found :: found_org where
  "acme_found = \<lparr>team_id = 42, name = ''Acme'', slug = Some ''acme'',
                  metadata = Some (JObj [(''isOrganization'', JBool True)]), parentId = None,
                  members = [\<lparr>user = alice\<rparr>, \<lparr>user = nameless\<rparr>]\<rparr>"

text \<open>The world after Acme has been deleted, and the world an interrupted
  deletion leaves (the second rename failed).\<close>

definition acme_deleted :: world where
  "acme_deleted =
     \<lparr>teams = [], memberships = [],
      users = [alice\<lparr>username := Some ''alice-1'', organizationId := None\<rparr>,
               nameless\<lparr>username := Some ''-2'', organizationId := None\<rparr>],
      domains = [],
      calls = [DeleteDomain ''acme'', UserUpdate 1 ''alice-1'', UserUpdate 2 ''-2'',
               TeamDelete 42]\<rparr>"

definition acme_interrupted :: world where
  "acme_interrupted =
     acme\<lparr>users := [alice\<lparr>username := Some ''alice-1''\<rparr>, nameless],
           domains := [],
           calls := [DeleteDomain ''acme'', UserUpdate 1 ''alice-1'', UserUpdate 2 ''-2'']\<rparr>"

text \<open>The steps in between: the domain released, then alice renamed.\<close>

definition acme_released :: world where
  "acme_released = acme\<lparr>domains := [], calls := [DeleteDomain ''acme'']\<rparr>"

definition acme_alice_renamed :: world where
  "acme_alice_renamed =
     acme\<lparr>users := [alice\<lparr>username := Some ''alice-1''\<rparr>, nameless],
           domains := [],
           calls := [DeleteDomain ''acme'', UserUpdate 1 ''alice-1'']\<rparr>"

text \<open>Acme with an empty slug.\<close>

definition unslugged :: world where
  "unslugged = acme\<lparr>teams := [acme_team\<lparr>slug := Some []\<rparr>]\<rparr>"

definition another_admin :: ctx where
  "another_admin = \<lparr>ctx_user = alice\<rparr>"

text \<open>A world whose team 42 is an ordinary team (no organization flag).\<close>

definition plain :: world where
  "plain = acme\<lparr>teams := [acme_team\<lparr>metadata := Some (JObj [(''isOrganization'', JBool False)])\<rparr>]\<rparr>"

definition admin :: ctx where
  "admin = \<lparr>ctx_user = \<lparr>user_id = 9, username = Some ''root'', email = ''root@example.com'',
                          organizationId = None\<rparr>\<rparr>"

definition delete42 :: AdminDeleteOption where
  "delete42 = \<lparr>ctx = admin, input = \<lparr>orgId = 42\<rparr>\<rparr>"

definition delete7 :: AdminDeleteOption where
  "delete7 = \<lparr>ctx = admin, input = \<lparr>orgId = 7\<rparr>\<rparr>"

text \<open>An invocation for a number beyond the INTEGER column.\<close>

definition delete_beyond :: AdminDeleteOption where
  "delete_beyond = \<lparr>ctx = admin, input = \<lparr>orgId = 2147483648\<rparr>\<rparr>"

definition no_faults :: faults where
  "no_faults w c = False"

definition second_rename_fails :: faults where
  "second_rename_fails w c = (c = UserUpdate 2 ''-2'')"

text \<open>A database as the migration expects it: the two indexes it drops exist,
  \<open>users_username_key\<close> being the unique index on the username alone.\<close>

definition alice_row :: row where
  "alice_row = [(''id'', Some (SInt 1)), (''username'', Some (SText ''alice'')),
                (''email'', Some (SText ''alice@example.com''))]"

definition nameless_row :: row where
  "nameless_row = [(''id'', Some (SInt 2)), (''username'', None),
                   (''email'', Some (SText ''bob@example.com''))]"

definition acme_row :: row where
  "acme_row = [(''id'', Some (SInt 42)), (''name'', Some (SText ''Acme''))]"

definition before_organizations :: database where
  "before_organizations =
     \<lparr>tables =
        [\<lparr>tname = ''users'',
          columns = [\<lparr>cname = ''id'', ctype = ''INTEGER'', notnull = True\<rparr>,
                     \<lparr>cname = ''username'', ctype = ''TEXT'', notnull = False\<rparr>,
                     \<lparr>cname = ''email'', ctype = ''TEXT'', notnull = True\<rparr>],
          rows = [alice_row, nameless_row]\<rparr>,
         \<lparr>tname = ''Team'',
          columns = [\<lparr>cname = ''id'', ctype = ''INTEGER'', notnull = True\<rparr>,
                     \<lparr>cname = ''name'', ctype = ''TEXT'', notnull = True\<rparr>],
          rows = [acme_row]\<rparr>],
      indexes =
        [\<lparr>iname = ''users_email_key'', itable = ''users'', icolumns = [''email''], iunique = True\<rparr>,
         \<lparr>iname = ''users_email_idx'', itable = ''users'', icolumns = [''email''], iunique = False\<rparr>,
         \<lparr>iname = ''users_username_key'', itable = ''users'', icolumns = [''username''],
          iunique = True\<rparr>],
      foreign_keys = []\<rparr>"

text \<open>Two user rows with the same username in different organizations.\<close>

definition rick_of_1 :: row where
  "rick_of_1 = [(''id'', Some (SInt 3)), (''username'', Some (SText ''rick'')),
                (''email'', Some (SText ''rick@example.com'')), (''organizationId'', Some (SInt 1))]"

definition rick_of_2 :: row where
  "rick_of_2 = [(''id'', Some (SInt 4)), (''username'', Some (SText ''rick'')),
                (''email'', Some (SText ''rick-jones@example.com'')), (''organizationId'', Some (SInt 2))]"

section \<open>Properties\<close>

subsection \<open>The rename loop\<close>

lemma user_update_Inl:
  "user_update f i n w = (Inl e, w') \<Longrightarrow>
     e = PersistenceFailure (UserUpdate i n) \<and> w' = logged (UserUpdate i n) w"
  by (auto simp: user_update_def split: if_splits)

lemma user_update_Inr:
  "user_update f (user_id u) (renamed u) w = (Inr x, w') \<Longrightarrow>
     w' = w\<lparr>users := map (rename_row u) (users w), calls := calls w @ [update_call u]\<rparr>"
  by (auto simp: user_update_def logged_def rename_row_def update_call_def split: if_splits)

lemma renameUsers_Inr:
  "renameUsers f us w = (Inr x, w') \<Longrightarrow>
     w' = w\<lparr>users := rename_rows us (users w), calls := calls w @ map update_call us\<rparr>"
proof (induction us arbitrary: w)
  case Nil
  then show ?case by (simp add: rename_rows_def)
next
  case (Cons u us)
  from Cons.prems obtain y w1 where
    step: "user_update f (user_id u) (renamed u) w = (Inr y, w1)" and
    rest: "renameUsers f us w1 = (Inr x, w')"
    by (auto split: prod.splits sum.splits)
  from user_update_Inr [OF step] Cons.IH [OF rest] show ?case
    by (simp add: rename_rows_def)
qed

lemma renameUsers_Inl:
  "renameUsers f us w = (Inl e, w') \<Longrightarrow>
     \<exists>k < length us. e = PersistenceFailure (update_call (us ! k)) \<and>
       w' = w\<lparr>users := rename_rows (take k us) (users w),
               calls := calls w @ map update_call (take (Suc k) us)\<rparr>"
proof (induction us arbitrary: w)
  case Nil
  then show ?case by simp
next
  case (Cons u us)
  show ?case
  proof (cases "user_update f (user_id u) (renamed u) w")
    case (Pair r w1)
    show ?thesis
    proof (cases r)
      case (Inl e1)
      with Pair Cons.prems have "e = e1" "w' = w1" by auto
      with user_update_Inl [of f "user_id u" "renamed u" w e1 w1] Pair Inl
      have "e = PersistenceFailure (update_call ((u # us) ! 0)) \<and>
            w' = w\<lparr>users := rename_rows (take 0 (u # us)) (users w),
                    calls := calls w @ map update_call (take (Suc 0) (u # us))\<rparr>"
        by (simp add: update_call_def logged_def rename_rows_def)
      then show ?thesis by blast
    next
      case (Inr y)
      with Pair Cons.prems have rest: "renameUsers f us w1 = (Inl e, w')" by simp
      from Pair Inr have w1: "w1 = w\<lparr>users := map (rename_row u) (users w), calls := calls w @ [update_call u]\<rparr>"
        using user_update_Inr by blast
      from Cons.IH [OF rest] obtain k where k: "k < length us"
        "e = PersistenceFailure (update_call (us ! k))"
        "w' = w1\<lparr>users := rename_rows (take k us) (users w1),
                 calls := calls w1 @ map update_call (take (Suc k) us)\<rparr>"
        by blast
      have "Suc k < length (u # us) \<and> e = PersistenceFailure (update_call ((u # us) ! Suc k)) \<and>
            w' = w\<lparr>users := rename_rows (take (Suc k) (u # us)) (users w),
                    calls := calls w @ map update_call (take (Suc (Suc k)) (u # us))\<rparr>"
        using k w1 by (simp add: rename_rows_def)
      then show ?thesis by blast
    qed
  qed
qed

lemma find_rename_row:
  "find (\<lambda>r. user_id r = j) (map (rename_row u) rs) =
     (if j = user_id u then map_option (\<lambda>r. r\<lparr>username := Some (renamed u)\<rparr>) (find (\<lambda>r. user_id r = j) rs)
      else find (\<lambda>r. user_id r = j) rs)"
  by (induction rs) (auto simp: rename_row_def)

lemma find_app:
  "find P (xs @ ys) = (case find P xs of None \<Rightarrow> find P ys | Some x \<Rightarrow> Some x)"
  by (induction xs) auto

lemma find_rename_rows:
  "find (\<lambda>r. user_id r = j) (rename_rows us rs) =
     map_option (\<lambda>r. case find (\<lambda>u. user_id u = j) (rev us) of
                        None \<Rightarrow> r
                      | Some u \<Rightarrow> r\<lparr>username := Some (renamed u)\<rparr>)
                (find (\<lambda>r. user_id r = j) rs)"
proof (induction us arbitrary: rs)
  case Nil
  then show ?case by (simp add: rename_rows_def option.map_ident)
next
  case (Cons u us)
  have "rename_rows (u # us) rs = rename_rows us (map (rename_row u) rs)"
    by (simp add: rename_rows_def)
  then show ?case
    by (simp add: Cons.IH find_rename_row find_app option.map_comp comp_def
             split: option.splits)
qed

subsection \<open>The lookup, the join and the single calls\<close>

lemma find_None_conv: "find P xs = None \<longleftrightarrow> \<not> (\<exists>x \<in> set xs. P x)"
  by (induction xs) auto

lemma find_SomeD: "find P xs = Some x \<Longrightarrow> x \<in> set xs \<and> P x"
  by (induction xs) (auto split: if_splits)

lemma team_findUnique_None:
  "team_findUnique i w = Inr None \<longleftrightarrow>
     int4 i \<and> \<not> (\<exists>t \<in> set (teams w). team_id t = i \<and> isOrganization t)"
  by (auto simp: team_findUnique_def find_None_conv split: option.splits dest: find_SomeD)

lemma team_findUnique_range:
  "team_findUnique i w = Inl e \<longleftrightarrow> \<not> int4 i \<and> e = ValueOutOfRange i"
  by (auto simp: team_findUnique_def)

lemma team_findUnique_Some:
  assumes "team_findUnique i w = Inr (Some fo)"
  shows "int4 i \<and> (\<exists>t. find (\<lambda>t. team_id t = i \<and> isOrganization t) (teams w) = Some t \<and>
             t \<in> set (teams w) \<and> team_id t = i \<and> isOrganization t \<and>
             name fo = name t \<and> slug fo = slug t \<and> members fo = team_members w i)"
proof -
  from assms obtain t where
    t: "find (\<lambda>t. team_id t = i \<and> isOrganization t) (teams w) = Some t" and
    fo: "fo = team.extend t (found_org.fields (team_members w (team_id t)))"
    by (auto simp: team_findUnique_def split: option.splits if_splits)
  from assms have "int4 i" by (auto simp: team_findUnique_def split: if_splits)
  from find_SomeD [OF t] have "t \<in> set (teams w)" "team_id t = i" "isOrganization t" by auto
  with t fo \<open>int4 i\<close> show ?thesis
    by (auto simp: team.extend_def found_org.fields_def)
qed

lemma joined_user_snapshot:
  "m \<in> set (joined_user w mb) \<Longrightarrow>
     find (\<lambda>u. user_id u = userId mb) (users w) = Some (user m) \<and> user_id (user m) = userId mb"
  by (cases "find (\<lambda>u. user_id u = userId mb) (users w)")
     (auto simp: joined_user_def dest: find_SomeD)

lemma team_members_iff:
  "m \<in> set (team_members w tid) \<longleftrightarrow>
     (\<exists>mb \<in> set (memberships w). teamId mb = tid \<and> m \<in> set (joined_user w mb))"
  by (auto simp: team_members_def)

lemma team_members_snapshot:
  "m \<in> set (team_members w tid) \<Longrightarrow>
     find (\<lambda>u. user_id u = user_id (user m)) (users w) = Some (user m)"
  using joined_user_snapshot by (fastforce simp: team_members_iff)

lemma team_members_row:
  assumes "mb \<in> set (memberships w)" and "teamId mb = tid"
    and "find (\<lambda>x. user_id x = userId mb) (users w) = Some u"
  shows "\<lparr>user = u\<rparr> \<in> set (team_members w tid)"
  using assms by (auto simp: team_members_iff joined_user_def)

lemma releaseSlug_cases:
  assumes "releaseSlug f sl w = (r, w1)"
  shows "(case sl of
            None \<Rightarrow> r = Inr () \<and> w1 = w
          | Some s \<Rightarrow>
              if s = [] then r = Inr () \<and> w1 = w
              else if f w (DeleteDomain s)
                then r = Inl (ExternalServiceFailure (DeleteDomain s)) \<and>
                     w1 = w\<lparr>calls := calls w @ [DeleteDomain s]\<rparr>
                else r = Inr () \<and>
                     w1 = w\<lparr>domains := removeAll s (domains w),
                             calls := calls w @ [DeleteDomain s]\<rparr>)"
  using assms
  by (auto simp: releaseSlug_def deleteDomain_def logged_def split: option.splits if_splits)

lemma team_delete_Inl:
  "team_delete f i w = (Inl e, w') \<Longrightarrow>
     e = PersistenceFailure (TeamDelete i) \<and> w' = w\<lparr>calls := calls w @ [TeamDelete i]\<rparr>"
  by (auto simp: team_delete_def logged_def Let_def split: if_splits)

lemma team_delete_Inr:
  "team_delete f i w = (Inr x, w') \<Longrightarrow>
     w' = w\<lparr>teams := filter (\<lambda>t. team_id t \<notin> set (doomed (teams w) [i])) (teams w),
             memberships := cascade_memberships (doomed (teams w) [i]) (memberships w),
             users := map (unaffiliate (doomed (teams w) [i])) (users w),
             calls := calls w @ [TeamDelete i]\<rparr>"
  by (auto simp: team_delete_def logged_def Let_def split: if_splits)

lemma doomed_keeps: "set ids \<subseteq> set (doomed ts ids)"
proof (induction ts ids rule: doomed.induct)
  case (1 ts ids)
  show ?case
  proof (cases "filter (\<lambda>t. (case parentId t of None \<Rightarrow> False | Some p \<Rightarrow> p \<in> set ids)
                        \<and> team_id t \<notin> set ids) ts")
    case Nil
    then show ?thesis by (subst doomed.simps) simp
  next
    case (Cons t rest)
    from "1.IH" [OF Cons] have "set (team_id t # ids) \<subseteq> set (doomed ts (team_id t # ids))" .
    moreover have "doomed ts ids = doomed ts (team_id t # ids)"
      by (subst doomed.simps) (simp add: Cons)
    ultimately show ?thesis by auto
  qed
qed

lemma handler_not_found:
  "team_findUnique (orgId (input opts)) w = Inr None \<Longrightarrow>
     adminDeleteHandler f opts w = (Inl forbidden, w)"
  by (simp add: adminDeleteHandler_def)

lemma handler_out_of_range:
  "\<not> int4 (orgId (input opts)) \<Longrightarrow>
     adminDeleteHandler f opts w = (Inl (ValueOutOfRange (orgId (input opts))), w)"
  by (simp add: adminDeleteHandler_def team_findUnique_def)

lemma handler_success:
  assumes "adminDeleteHandler f opts w = (Inr r, w')"
  shows "\<exists>fo w1 w2.
           team_findUnique (orgId (input opts)) w = Inr (Some fo) \<and>
           releaseSlug f (slug fo) w = (Inr (), w1) \<and>
           renameUsers f (map user (members fo)) w1 = (Inr (), w2) \<and>
           team_delete f (orgId (input opts)) w2 = (Inr (), w') \<and>
           r = \<lparr>ok = True, message = ''Organization '' @ name fo @ '' deleted.''\<rparr>"
  using assms
  by (auto simp: adminDeleteHandler_def split: option.splits prod.splits sum.splits)

lemma handler_found:
  assumes "team_findUnique (orgId (input opts)) w = Inr (Some fo)"
    and "adminDeleteHandler f opts w = (r, w')"
  shows "(\<exists>e. releaseSlug f (slug fo) w = (Inl e, w') \<and> r = Inl e) \<or>
         (\<exists>w1. releaseSlug f (slug fo) w = (Inr (), w1) \<and>
            ((\<exists>e. renameUsers f (map user (members fo)) w1 = (Inl e, w') \<and> r = Inl e) \<or>
             (\<exists>w2. renameUsers f (map user (members fo)) w1 = (Inr (), w2) \<and>
                ((\<exists>e. team_delete f (orgId (input opts)) w2 = (Inl e, w') \<and> r = Inl e) \<or>
                 (team_delete f (orgId (input opts)) w2 = (Inr (), w') \<and>
                  r = Inr \<lparr>ok = True, message = ''Organization '' @ name fo @ '' deleted.''\<rparr>)))))"
  using assms
  by (auto simp: adminDeleteHandler_def split: option.splits prod.splits sum.splits)

subsection \<open>Usernames after the renames\<close>

lemma unaffiliate_id [simp]: "user_id (unaffiliate d u) = user_id u"
  by (simp add: unaffiliate_def split: option.splits)

lemma unaffiliate_username [simp]: "username (unaffiliate d u) = username u"
  by (simp add: unaffiliate_def split: option.splits)

lemma find_unaffiliate:
  "find (\<lambda>r. user_id r = j) (map (unaffiliate d) rs) =
     map_option (unaffiliate d) (find (\<lambda>r. user_id r = j) rs)"
  by (induction rs) auto

lemma or_empty_spec: "or_empty u = (case u of None \<Rightarrow> [] | Some s \<Rightarrow> s)"
  by (simp add: or_empty_def split: option.splits)

lemma renamed_spec: "renamed u = spec_username (username u) (user_id u)"
  by (simp add: renamed_def spec_username_def or_empty_spec)

text \<open>After the renames of a consistent snapshot, every user of the snapshot carries
  its new name.\<close>

lemma find_rev_snapshot:
  assumes snap: "\<forall>u \<in> set us. find (\<lambda>r. user_id r = user_id u) rs = Some u"
    and u: "u \<in> set us"
  shows "find (\<lambda>x. user_id x = user_id u) (rev us) = Some u"
proof (cases "find (\<lambda>x. user_id x = user_id u) (rev us)")
  case None
  with u show ?thesis by (auto simp: find_None_conv)
next
  case (Some v)
  from find_SomeD [OF Some] have "v \<in> set us" "user_id v = user_id u" by auto
  from snap u have "find (\<lambda>r. user_id r = user_id u) rs = Some u" by blast
  moreover from snap \<open>v \<in> set us\<close> have "find (\<lambda>r. user_id r = user_id v) rs = Some v" by blast
  ultimately have "v = u" using \<open>user_id v = user_id u\<close> by simp
  with Some show ?thesis by simp
qed

lemma rename_rows_snapshot:
  assumes snap: "\<forall>u \<in> set us. find (\<lambda>r. user_id r = user_id u) rs = Some u"
    and u: "u \<in> set us"
  shows "find (\<lambda>r. user_id r = user_id u) (rename_rows us rs) =
           Some (u\<lparr>username := Some (renamed u)\<rparr>)"
  using snap u by (simp add: find_rename_rows find_rev_snapshot [OF snap u])

lemma rename_rows_other:
  assumes "j \<notin> user_id ` set us"
  shows "find (\<lambda>r. user_id r = j) (rename_rows us rs) = find (\<lambda>r. user_id r = j) rs"
proof -
  from assms have "find (\<lambda>u. user_id u = j) (rev us) = None"
    by (auto simp: find_None_conv)
  then show ?thesis by (simp add: find_rename_rows option.map_ident)
qed

lemma releaseSlug_tables:
  assumes "releaseSlug f sl w = (r, w1)"
  shows "users w1 = users w \<and> teams w1 = teams w \<and> memberships w1 = memberships w"
  using releaseSlug_cases [OF assms] by (auto split: option.splits if_splits)

subsection \<open>The domain step and the deletion\<close>

lemma release_calls_log:
  assumes "releaseSlug f sl w = (r, w1)"
  shows "calls w1 = calls w @ release_calls sl"
  using releaseSlug_cases [OF assms]
  by (auto simp: release_calls_def split: option.splits if_splits)

lemma releaseSlug_domains:
  assumes "releaseSlug f sl w = (Inr x, w1)"
  shows "domains w1 = (case sl of None \<Rightarrow> domains w
                       | Some s \<Rightarrow> if s = [] then domains w else removeAll s (domains w))"
  using releaseSlug_cases [OF assms]
  by (auto split: option.splits if_splits)

lemma releaseSlug_error:
  assumes "releaseSlug f sl w = (Inl e, w1)"
  shows "\<exists>s. e = ExternalServiceFailure (DeleteDomain s)"
  using releaseSlug_cases [OF assms]
  by (auto split: option.splits if_splits)

lemma update_call_kind [simp]: "is_UserUpdate (update_call u)" "\<not> is_DeleteDomain (update_call u)"
  by (simp_all add: update_call_def)

lemma team_delete_gone:
  assumes "team_delete f i w = (Inr x, w')"
  shows "(\<forall>t \<in> set (teams w'). team_id t \<noteq> i) \<and> (\<forall>m \<in> set (memberships w'). teamId m \<noteq> i)"
proof -
  have "i \<in> set (doomed (teams w) [i])" using doomed_keeps [of "[i]" "teams w"] by simp
  with team_delete_Inr [OF assms] show ?thesis by (auto simp: cascade_memberships_def)
qed

subsection \<open>Decimal numerals and the renamed username\<close>

lemma digit_char_cases:
  assumes "d < 10"
  shows "digit_val (digit_char d) = d \<and> digit_char d \<noteq> CHR ''-''"
proof -
  from assms have "d = 0 \<or> d = 1 \<or> d = 2 \<or> d = 3 \<or> d = 4 \<or> d = 5 \<or> d = 6 \<or> d = 7 \<or> d = 8 \<or> d = 9"
    by arith
  then show ?thesis
    by (elim disjE) (simp_all add: digit_char_def digit_val_def)
qed

lemma undigits_snoc: "undigits (cs @ [c]) = 10 * undigits cs + digit_val c"
  by (simp add: undigits_def)

lemma undigits_digits: "undigits (digits n) = n"
proof (induction n rule: digits.induct)
  case (1 n)
  show ?case
  proof (cases "n < 10")
    case True
    then show ?thesis
      by (subst digits.simps) (simp add: undigits_def digit_char_cases)
  next
    case False
    with "1.IH" have "undigits (digits (n div 10)) = n div 10" by simp
    with False show ?thesis
      by (subst digits.simps) (simp add: undigits_snoc digit_char_cases)
  qed
qed

lemma digits_no_hyphen: "CHR ''-'' \<notin> set (digits n)"
proof (induction n rule: digits.induct)
  case (1 n)
  show ?case
  proof (cases "n < 10")
    case True
    then show ?thesis
      using digit_char_cases [of n] by (subst digits.simps) auto
  next
    case False
    with "1.IH" have "CHR ''-'' \<notin> set (digits (n div 10))" by simp
    moreover have "digit_char (n mod 10) \<noteq> CHR ''-''"
      using digit_char_cases [of "n mod 10"] by simp
    ultimately show ?thesis using False
      by (subst digits.simps) auto
  qed
qed

lemma digits_inj: "digits m = digits n \<Longrightarrow> m = n"
  by (metis undigits_digits)

lemma takeWhile_upto: "x \<notin> set xs \<Longrightarrow> takeWhile (\<lambda>c. c \<noteq> x) (xs @ x # ys) = xs"
  by (induction xs) auto

lemma suffix_after_last_hyphen:
  assumes "CHR ''-'' \<notin> set d"
  shows "takeWhile (\<lambda>c. c \<noteq> CHR ''-'') (rev (p @ ''-'' @ d)) = rev d"
proof -
  have "rev (p @ ''-'' @ d) = rev d @ (CHR ''-'' # rev p)" by simp
  moreover have "takeWhile (\<lambda>c. c \<noteq> CHR ''-'') (rev d @ (CHR ''-'' # rev p)) = rev d"
    using assms by (intro takeWhile_upto) simp
  ultimately show ?thesis by simp
qed

lemma renamed_id_inj:
  assumes "renamed u = renamed v" and "0 \<le> user_id u" and "0 \<le> user_id v"
  shows "user_id u = user_id v"
proof -
  let ?du = "digits (nat (user_id u))" and ?dv = "digits (nat (user_id v))"
  from assms have eq: "or_empty (username u) @ ''-'' @ ?du = or_empty (username v) @ ''-'' @ ?dv"
    by (simp add: renamed_def show_int_def)
  have "rev ?du = takeWhile (\<lambda>c. c \<noteq> CHR ''-'') (rev (or_empty (username u) @ ''-'' @ ?du))"
    by (rule suffix_after_last_hyphen [symmetric]) (rule digits_no_hyphen)
  also have "\<dots> = takeWhile (\<lambda>c. c \<noteq> CHR ''-'') (rev (or_empty (username v) @ ''-'' @ ?dv))"
    by (simp only: eq)
  also have "\<dots> = rev ?dv"
    by (rule suffix_after_last_hyphen) (rule digits_no_hyphen)
  finally have "?du = ?dv" by simp
  then have "nat (user_id u) = nat (user_id v)" by (rule digits_inj)
  with assms(2,3) show ?thesis by simp
qed

subsection \<open>The statements of the migration\<close>

lemma run_ConsD:
  "run (s # ss) db = Inr db' \<Longrightarrow> \<exists>d. s db = Inr d \<and> run ss d = Inr db'"
  by (simp split: sum.splits)

lemma drop_index_Inr:
  "drop_index n db = Inr d \<Longrightarrow>
     (\<exists>i \<in> set (indexes db). iname i = n) \<and>
     d = db\<lparr>indexes := filter (\<lambda>i. iname i \<noteq> n) (indexes db)\<rparr>"
  by (auto simp: drop_index_def split: if_splits)

lemma find_map_same:
  assumes "\<And>x. tname (h x) = tname x"
  shows "find (\<lambda>x. tname x = t') (map (\<lambda>x. if tname x = t then h x else x) xs) =
           map_option (\<lambda>x. if tname x = t then h x else x) (find (\<lambda>x. tname x = t') xs)"
  using assms by (induction xs) auto

lemma find_table_name: "find_table t db = Some tb \<Longrightarrow> tname tb = t"
  by (auto simp: find_table_def dest: find_SomeD)

lemma add_column_Inr:
  assumes "add_column t c db = Inr d"
  shows "indexes d = indexes db \<and> foreign_keys d = foreign_keys db \<and>
         (\<forall>t'. find_table t' d =
            (if t' = t then map_option (with_column c) (find_table t db)
             else find_table t' db)) \<and>
         (\<exists>tb. find_table t db = Some tb)"
proof -
  from assms obtain tb where tb: "find_table t db = Some tb" and
    d: "d = db\<lparr>tables := map (\<lambda>x. if tname x = t then with_column c x else x) (tables db)\<rparr>"
    by (auto simp: add_column_def split: option.splits if_splits)
  have name: "\<And>x. tname (with_column c x) = tname x"
    by (simp add: with_column_def)
  have "find_table t' d =
          (if t' = t then map_option (with_column c) (find_table t db) else find_table t' db)"
    for t'
  proof (cases "find_table t' db")
    case None
    then show ?thesis
      unfolding find_table_def d using find_map_same [of "with_column c", OF name]
      by auto
  next
    case (Some x)
    with find_table_name have "tname x = t'" by blast
    with Some show ?thesis
      unfolding find_table_def d using find_map_same [of "with_column c", OF name]
      by auto
  qed
  with tb d show ?thesis by simp
qed

lemma create_index_Inr:
  "create_index uq n t cs db = Inr d \<Longrightarrow>
     d = db\<lparr>indexes := indexes db @ [\<lparr>iname = n, itable = t, icolumns = cs, iunique = uq\<rparr>]\<rparr>"
  by (auto simp: create_index_def split: option.splits if_splits)

lemma add_foreign_key_Inr:
  "add_foreign_key fk db = Inr d \<Longrightarrow> d = db\<lparr>foreign_keys := foreign_keys db @ [fk]\<rparr>"
  by (auto simp: add_foreign_key_def split: option.splits if_splits prod.splits)

lemma migration_steps:
  assumes "migration db = Inr db'"
  shows "\<exists>d1 d2 d3 d4 d5 d6 d7.
           drop_index ''users_email_idx'' db = Inr d1 \<and>
           drop_index ''users_username_key'' d1 = Inr d2 \<and>
           add_column ''Team'' \<lparr>cname = ''parentId'', ctype = ''INTEGER'', notnull = False\<rparr> d2 =
             Inr d3 \<and>
           add_column ''users''
             \<lparr>cname = ''organizationId'', ctype = ''INTEGER'', notnull = False\<rparr> d3 = Inr d4 \<and>
           create_index True ''users_email_username_key'' ''users'' [''email'', ''username''] d4 =
             Inr d5 \<and>
           create_index True ''users_username_organizationId_key'' ''users''
             [''username'', ''organizationId''] d5 = Inr d6 \<and>
           add_foreign_key users_organizationId_fkey d6 = Inr d7 \<and>
           add_foreign_key Team_parentId_fkey d7 = Inr db'"
  using assms unfolding migration_def
  by (simp split: sum.splits)

lemma migration_Inr:
  assumes "migration db = Inr db'"
  shows "(\<exists>i \<in> set (indexes db). iname i = ''users_email_idx'') \<and>
         (\<exists>i \<in> set (indexes db). iname i = ''users_username_key'') \<and>
         indexes db' =
           filter (\<lambda>i. iname i \<noteq> ''users_username_key'')
             (filter (\<lambda>i. iname i \<noteq> ''users_email_idx'') (indexes db)) @
           [\<lparr>iname = ''users_email_username_key'', itable = ''users'',
             icolumns = [''email'', ''username''], iunique = True\<rparr>,
            \<lparr>iname = ''users_username_organizationId_key'', itable = ''users'',
             icolumns = [''username'', ''organizationId''], iunique = True\<rparr>] \<and>
         (\<exists>tb. find_table ''users'' db = Some tb \<and>
            find_table ''users'' db' =
              Some (with_column
                      \<lparr>cname = ''organizationId'', ctype = ''INTEGER'', notnull = False\<rparr> tb))"
proof -
  from migration_steps [OF assms] obtain d1 d2 d3 d4 d5 d6 d7 where
    s1: "drop_index ''users_email_idx'' db = Inr d1" and
    s2: "drop_index ''users_username_key'' d1 = Inr d2" and
    s3: "add_column ''Team'' \<lparr>cname = ''parentId'', ctype = ''INTEGER'', notnull = False\<rparr> d2 =
           Inr d3" and
    s4: "add_column ''users''
           \<lparr>cname = ''organizationId'', ctype = ''INTEGER'', notnull = False\<rparr> d3 = Inr d4" and
    s5: "create_index True ''users_email_username_key'' ''users'' [''email'', ''username''] d4 =
           Inr d5" and
    s6: "create_index True ''users_username_organizationId_key'' ''users''
           [''username'', ''organizationId''] d5 = Inr d6" and
    s7: "add_foreign_key users_organizationId_fkey d6 = Inr d7" and
    s8: "add_foreign_key Team_parentId_fkey d7 = Inr db'"
    by blast
  note i1 = drop_index_Inr [OF s1] and i2 = drop_index_Inr [OF s2]
    and c3 = add_column_Inr [OF s3] and c4 = add_column_Inr [OF s4]
    and x5 = create_index_Inr [OF s5] and x6 = create_index_Inr [OF s6]
    and k7 = add_foreign_key_Inr [OF s7] and k8 = add_foreign_key_Inr [OF s8]
  have idx: "indexes db' =
           filter (\<lambda>i. iname i \<noteq> ''users_username_key'')
             (filter (\<lambda>i. iname i \<noteq> ''users_email_idx'') (indexes db)) @
           [\<lparr>iname = ''users_email_username_key'', itable = ''users'',
             icolumns = [''email'', ''username''], iunique = True\<rparr>,
            \<lparr>iname = ''users_username_organizationId_key'', itable = ''users'',
             icolumns = [''username'', ''organizationId''], iunique = True\<rparr>]"
    using i1 i2 c3 c4 x5 x6 k7 k8 by simp
  have dropped: "\<exists>i \<in> set (indexes db). iname i = ''users_username_key''"
    using i1 i2 by auto
  from c4 obtain tb where tb: "find_table ''users'' d3 = Some tb" by blast
  have "find_table ''users'' d3 = find_table ''users'' d2" using c3 by simp
  also have "\<dots> = find_table ''users'' db" using i1 i2 by (simp add: find_table_def)
  finally have before: "find_table ''users'' db = Some tb" using tb by simp
  have "find_table ''users'' db' = find_table ''users'' d4"
    using x5 x6 k7 k8 by (simp add: find_table_def)
  also have "\<dots> = Some (with_column
      \<lparr>cname = ''organizationId'', ctype = ''INTEGER'', notnull = False\<rparr> tb)"
    using c4 tb by simp
  finally show ?thesis using idx dropped before i1 by blast
qed

lemma pair_admitted:
  "unique_holds cs [r1, r2] \<longleftrightarrow> \<not> conflict cs r1 r2"
  by simp

subsection \<open>Without faults the deletion of a found organization succeeds\<close>

lemma user_update_succeeds:
  assumes "\<not> f w (UserUpdate i n)" and "\<exists>r \<in> set (users w). user_id r = i"
  shows "\<exists>w'. user_update f i n w = (Inr (), w') \<and>
              user_id ` set (users w') = user_id ` set (users w)"
proof -
  have "map user_id (map (\<lambda>u. if user_id u = i then u\<lparr>username := Some n\<rparr> else u) (users w)) =
        map user_id (users w)"
    by (induction "users w") auto
  then have "user_id ` set (map (\<lambda>u. if user_id u = i then u\<lparr>username := Some n\<rparr> else u) (users w)) =
        user_id ` set (users w)"
    by (metis set_map)
  with assms show ?thesis
    by (simp add: user_update_def logged_def)
qed

lemma renameUsers_succeeds:
  assumes "\<forall>w c. \<not> f w c" and "user_id ` set us \<subseteq> user_id ` set (users w)"
  shows "\<exists>w'. renameUsers f us w = (Inr (), w')"
  using assms(2)
proof (induction us arbitrary: w)
  case Nil
  then show ?case by simp
next
  case (Cons u us)
  from Cons.prems have "\<exists>r \<in> set (users w). user_id r = user_id u" by auto
  with assms(1) obtain w1 where
    w1: "user_update f (user_id u) (renamed u) w = (Inr (), w1)"
      "user_id ` set (users w1) = user_id ` set (users w)"
    using user_update_succeeds by blast
  with Cons.prems have "user_id ` set us \<subseteq> user_id ` set (users w1)" by auto
  from Cons.IH [OF this] w1(1) show ?case by simp
qed

lemma handler_succeeds:
  assumes nofault: "\<forall>w c. \<not> f w c"
    and found: "team_findUnique (orgId (input opts)) w = Inr (Some fo)"
  shows "\<exists>w'. adminDeleteHandler f opts w =
           (Inr \<lparr>ok = True, message = ''Organization '' @ name fo @ '' deleted.''\<rparr>, w')"
proof -
  let ?i = "orgId (input opts)"
  let ?us = "map user (members fo)"
  from team_findUnique_Some [OF found] obtain t where
    t: "t \<in> set (teams w)" "team_id t = ?i" and ms: "members fo = team_members w ?i"
    by blast
  obtain r w1 where w1: "releaseSlug f (slug fo) w = (r, w1)" by (cases "releaseSlug f (slug fo) w")
  from releaseSlug_cases [OF w1] nofault have r: "r = Inr ()"
    by (auto split: option.splits if_splits)
  note tabs = releaseSlug_tables [OF w1]
  have "user_id ` set ?us \<subseteq> user_id ` set (users w1)"
  proof
    fix j assume "j \<in> user_id ` set ?us"
    then obtain m where m: "m \<in> set (team_members w ?i)" "j = user_id (user m)"
      by (auto simp: ms)
    from find_SomeD [OF team_members_snapshot [OF m(1)]] m(2) tabs
    show "j \<in> user_id ` set (users w1)" by auto
  qed
  from renameUsers_succeeds [OF nofault this] obtain w2 where
    w2: "renameUsers f ?us w1 = (Inr (), w2)" by blast
  from renameUsers_Inr [OF w2] tabs have "teams w2 = teams w" by simp
  with t have "\<exists>t \<in> set (teams w2). team_id t = ?i" by auto
  with nofault obtain w3 where "team_delete f ?i w2 = (Inr (), w3)"
    by (simp add: team_delete_def Let_def)
  with found w1 r w2 show ?thesis
    by (simp add: adminDeleteHandler_def)
qed

subsection \<open>A failing update ends the run\<close>

lemma renameUsers_append:
  "renameUsers f (xs @ ys) w =
     (case renameUsers f xs w of
        (Inl e, w') \<Rightarrow> (Inl e, w')
      | (Inr _, w') \<Rightarrow> renameUsers f ys w')"
  by (induction xs arbitrary: w) (auto split: prod.splits sum.splits)

text \<open>When the first \<open>k\<close> updates succeed and the next one throws, the loop ends
  there and the handler with it.\<close>

lemma failed_rename_aborts:
  assumes found: "team_findUnique (orgId (input opts)) w = Inr (Some fo)"
    and domain: "releaseSlug f (slug fo) w = (Inr (), w1)"
    and k: "k < length (members fo)"
    and before: "renameUsers f (take k (map user (members fo))) w1 = (Inr (), wk)"
    and fails: "user_update f (user_id (map user (members fo) ! k))
                  (renamed (map user (members fo) ! k)) wk = (Inl e, wx)"
  shows "adminDeleteHandler f opts w = (Inl e, wx)"
proof -
  let ?us = "map user (members fo)"
  from k have "k < length ?us" by simp
  then have "?us = take k ?us @ (?us ! k) # drop (Suc k) ?us"
    by (rule id_take_nth_drop)
  then have "renameUsers f ?us w1 =
      (case renameUsers f (take k ?us) w1 of
        (Inl e, w') \<Rightarrow> (Inl e, w')
      | (Inr _, w') \<Rightarrow> renameUsers f ((?us ! k) # drop (Suc k) ?us) w')"
    using renameUsers_append [of f "take k ?us" "(?us ! k) # drop (Suc k) ?us" w1] by simp
  with before fails have "renameUsers f ?us w1 = (Inl e, wx)"
    by simp
  with found domain show ?thesis
    by (simp add: adminDeleteHandler_def)
qed

text \<open>The world in which the renames of the first \<open>k\<close> members have been
  written and the update of member \<open>k\<close> has been issued.\<close>

lemma partial_rename_state:
  assumes found: "team_findUnique (orgId (input opts)) w = Inr (Some fo)"
    and domain: "releaseSlug f (slug fo) w = (Inr (), w1)"
    and w': "w' = w1\<lparr>users := rename_rows (take k (map user (members fo))) (users w1),
                     calls := calls w1 @ map update_call (take (Suc k) (map user (members fo)))\<rparr>"
  shows "calls w' = calls w @ release_calls (slug fo) @
                      map update_call (take (Suc k) (map user (members fo))) \<and>
         (\<forall>u \<in> set (take k (map user (members fo))).
            \<exists>u'. lookup_user w' (user_id u) = Some u' \<and>
                 username u' = Some (spec_username (username u) (user_id u))) \<and>
         (\<forall>j. j \<notin> user_id ` set (take k (map user (members fo))) \<longrightarrow>
              lookup_user w' j = lookup_user w j) \<and>
         (distinct (map user_id (map user (members fo))) \<longrightarrow>
            (\<forall>j. k \<le> j \<and> j < length (members fo) \<longrightarrow>
               lookup_user w' (user_id (map user (members fo) ! j)) =
                 Some (map user (members fo) ! j))) \<and>
         domains w' = (case slug fo of None \<Rightarrow> domains w
                       | Some s \<Rightarrow> if s = [] then domains w else removeAll s (domains w)) \<and>
         teams w' = teams w \<and> memberships w' = memberships w"
proof -
  let ?us = "map user (members fo)"
  let ?i = "orgId (input opts)"
  from team_findUnique_Some [OF found] have ms: "members fo = team_members w ?i" by blast
  note tabs = releaseSlug_tables [OF domain]
  have snap: "\<forall>v \<in> set ?us. find (\<lambda>r. user_id r = user_id v) (users w1) = Some v"
    using team_members_snapshot tabs by (auto simp: ms)
  have snapk: "\<forall>v \<in> set (take k ?us). find (\<lambda>r. user_id r = user_id v) (users w1) = Some v"
    using snap by (meson in_set_takeD)
  have users': "users w' = rename_rows (take k ?us) (users w1)" using w' by simp
  have 2: "calls w' = calls w @ release_calls (slug fo) @ map update_call (take (Suc k) ?us)"
    using w' release_calls_log [OF domain] by simp
  have 3: "\<forall>u \<in> set (take k ?us).
            \<exists>u'. lookup_user w' (user_id u) = Some u' \<and>
                 username u' = Some (spec_username (username u) (user_id u))"
  proof
    fix u assume "u \<in> set (take k ?us)"
    from rename_rows_snapshot [OF snapk this]
    show "\<exists>u'. lookup_user w' (user_id u) = Some u' \<and>
                 username u' = Some (spec_username (username u) (user_id u))"
      by (simp add: lookup_user_def users' renamed_spec)
  qed
  have 4: "\<forall>j. j \<notin> user_id ` set (take k ?us) \<longrightarrow> lookup_user w' j = lookup_user w j"
    using rename_rows_other [of _ "take k ?us" "users w1"] tabs
    by (simp add: lookup_user_def users')
  have 5: "distinct (map user_id ?us) \<longrightarrow>
            (\<forall>j. k \<le> j \<and> j < length (members fo) \<longrightarrow>
               lookup_user w' (user_id (?us ! j)) = Some (?us ! j))"
  proof (intro impI allI)
    fix j assume d: "distinct (map user_id ?us)" and j: "k \<le> j \<and> j < length (members fo)"
    have "user_id (?us ! j) \<notin> user_id ` set (take k ?us)"
    proof
      assume "user_id (?us ! j) \<in> user_id ` set (take k ?us)"
      then obtain l where l: "l < k" "l < length ?us" "user_id (?us ! l) = user_id (?us ! j)"
        by (auto simp: in_set_conv_nth)
      with d j have "l = j"
        by (metis distinct_conv_nth length_map nth_map)
      with l j show False by simp
    qed
    with 4 have "lookup_user w' (user_id (?us ! j)) = lookup_user w (user_id (?us ! j))" by blast
    moreover from j have "?us ! j \<in> set ?us" by (intro nth_mem) simp
    with snap tabs have "lookup_user w (user_id (?us ! j)) = Some (?us ! j)"
      by (simp add: lookup_user_def del: set_map)
    ultimately show "lookup_user w' (user_id (?us ! j)) = Some (?us ! j)" by simp
  qed
  have 6: "domains w' = (case slug fo of None \<Rightarrow> domains w
                       | Some s \<Rightarrow> if s = [] then domains w else removeAll s (domains w))"
    using releaseSlug_domains [OF domain] w' by simp
  have 7: "teams w' = teams w \<and> memberships w' = memberships w"
    using tabs w' by simp
  from 2 3 4 5 6 7 show ?thesis by simp
qed

section \<open>The scenarios, run\<close>

lemmas scenario_defs =
  acme_def acme_team_def alice_def nameless_def plain_def admin_def delete42_def delete7_def
  no_faults_def second_rename_fails_def acme_found_def acme_deleted_def acme_interrupted_def
  unslugged_def another_admin_def acme_released_def acme_alice_renamed_def delete_beyond_def

lemmas handler_defs =
  adminDeleteHandler_def team_findUnique_def int4_def isOrganization_def team_members_def
  joined_user_def releaseSlug_def deleteDomain_def logged_def user_update_def renamed_def
  or_empty_def show_int_def digits.simps digit_char_def team_delete_def doomed.simps
  unaffiliate_def cascade_memberships_def team.extend_def found_org.fields_def forbidden_def

lemma acme_is_found: "team_findUnique (orgId (input delete42)) acme = Inr (Some acme_found)"
  by (simp add: scenario_defs handler_defs)

lemma acme_run:
  "adminDeleteHandler no_faults delete42 acme =
     (Inr \<lparr>ok = True, message = ''Organization Acme deleted.''\<rparr>, acme_deleted)"
  by (simp add: scenario_defs handler_defs)

lemma acme_interrupted_run:
  "adminDeleteHandler second_rename_fails delete42 acme =
     (Inl (PersistenceFailure (UserUpdate 2 ''-2'')), acme_interrupted)"
  by (simp add: scenario_defs handler_defs)

lemma unslugged_is_found:
  "team_findUnique (orgId (input delete42)) unslugged =
     Inr (Some (acme_found\<lparr>slug := Some []\<rparr>))"
  by (simp add: scenario_defs handler_defs)

lemma acme_release_step:
  "releaseSlug second_rename_fails (slug acme_found) acme = (Inr (), acme_released)"
  by (simp add: scenario_defs handler_defs)

lemma acme_first_rename:
  "renameUsers second_rename_fails (take 1 (map user (members acme_found))) acme_released =
     (Inr (), acme_alice_renamed)"
  by (simp add: scenario_defs handler_defs)

lemma acme_second_rename:
  "user_update second_rename_fails (user_id (map user (members acme_found) ! 1))
     (renamed (map user (members acme_found) ! 1)) acme_alice_renamed =
     (Inl (PersistenceFailure (UserUpdate 2 ''-2'')), acme_interrupted)"
  by (simp add: scenario_defs handler_defs)

section \<open>The claims\<close>

text \<open>C1, amended. When no team has the given identifier together with the
  organization flag, the handler leaves the world as it was (no table changes, no
  collaborator call logged), and for an identifier that fits the INTEGER column it
  rejects with the fixed FORBIDDEN error; for an identifier beyond the column the
  lookup's range error is what the caller gets. The hypothesis does not tell a
  missing team from a team without the flag.\<close>

theorem not_an_organization_rejected:
  assumes "\<not> (\<exists>t \<in> set (teams w). team_id t = orgId (input opts) \<and> isOrganization t)"
  shows "adminDeleteHandler f opts w =
           (if int4 (orgId (input opts))
            then Inl (TRPCError ''FORBIDDEN'' ''This team isnt a org or doesnt exist'')
            else Inl (ValueOutOfRange (orgId (input opts))),
            w)"
proof (cases "int4 (orgId (input opts))")
  case True
  with assms have "team_findUnique (orgId (input opts)) w = Inr None"
    by (simp add: team_findUnique_None)
  from handler_not_found [OF this] True show ?thesis by (simp add: forbidden_def)
next
  case False
  from handler_out_of_range [OF this] False show ?thesis by simp
qed

text \<open>As first stated, for every identifier, the claim fails: no team has the
  identifier 2147483648, and the rejection is not the FORBIDDEN error.\<close>

theorem not_an_organization_counterexample:
  "\<not> (\<exists>t \<in> set (teams acme). team_id t = orgId (input delete_beyond) \<and> isOrganization t) \<and>
   adminDeleteHandler no_faults delete_beyond acme =
     (Inl (ValueOutOfRange 2147483648), acme) \<and>
   adminDeleteHandler no_faults delete_beyond acme \<noteq>
     (Inl (TRPCError ''FORBIDDEN'' ''This team isnt a org or doesnt exist''), acme)"
  by (simp add: scenario_defs handler_defs)

text \<open>Both cases at work: no team 7 at all, and a team 42 that is not an
  organization.\<close>

theorem not_an_organization_rejected_witness:
  "adminDeleteHandler no_faults delete7 acme =
     (Inl (TRPCError ''FORBIDDEN'' ''This team isnt a org or doesnt exist''), acme) \<and>
   adminDeleteHandler no_faults delete42 plain =
     (Inl (TRPCError ''FORBIDDEN'' ''This team isnt a org or doesnt exist''), plain)"
proof -
  have missing: "\<not> (\<exists>t \<in> set (teams acme). team_id t = orgId (input delete7) \<and> isOrganization t)"
    by (simp add: scenario_defs)
  have unflagged:
    "\<not> (\<exists>t \<in> set (teams plain). team_id t = orgId (input delete42) \<and> isOrganization t)"
    by (simp add: scenario_defs isOrganization_def)
  from not_an_organization_rejected [OF missing] not_an_organization_rejected [OF unflagged]
  show ?thesis by (simp add: delete7_def delete42_def int4_def)
qed

text \<open>C2. After a successful deletion, every member of the organization (a
  membership row of the team whose user row \<open>u\<close> exists) carries the username
  made of its original username, or nothing when it had none, a hyphen and its
  identifier.\<close>

theorem member_usernames_rewritten:
  assumes ok: "adminDeleteHandler f opts w = (Inr r, w')"
    and mb: "mb \<in> set (memberships w)" "teamId mb = orgId (input opts)"
    and u: "lookup_user w (userId mb) = Some u"
  shows "\<exists>u'. lookup_user w' (userId mb) = Some u' \<and>
               username u' = Some (spec_username (username u) (userId mb))"
proof -
  from handler_success [OF ok] obtain fo w1 w2 where
    fo: "team_findUnique (orgId (input opts)) w = Inr (Some fo)" and
    w1: "releaseSlug f (slug fo) w = (Inr (), w1)" and
    w2: "renameUsers f (map user (members fo)) w1 = (Inr (), w2)" and
    w3: "team_delete f (orgId (input opts)) w2 = (Inr (), w')"
    by blast
  let ?us = "map user (members fo)"
  from team_findUnique_Some [OF fo] have ms: "members fo = team_members w (orgId (input opts))"
    by blast
  from u have idu: "user_id u = userId mb" by (auto simp: lookup_user_def dest: find_SomeD)
  from team_members_row [OF mb(1) mb(2)] u have "u \<in> set ?us"
    by (force simp: ms lookup_user_def)
  moreover have snap: "\<forall>v \<in> set ?us. find (\<lambda>r. user_id r = user_id v) (users w1) = Some v"
    using team_members_snapshot releaseSlug_tables [OF w1] by (auto simp: ms)
  ultimately have "find (\<lambda>r. user_id r = user_id u) (rename_rows ?us (users w1)) =
      Some (u\<lparr>username := Some (renamed u)\<rparr>)"
    by (rule rename_rows_snapshot [rotated])
  moreover from renameUsers_Inr [OF w2] have "users w2 = rename_rows ?us (users w1)" by simp
  moreover from team_delete_Inr [OF w3]
  have "users w' = map (unaffiliate (doomed (teams w2) [orgId (input opts)])) (users w2)" by simp
  ultimately have "lookup_user w' (userId mb) =
      Some (unaffiliate (doomed (teams w2) [orgId (input opts)]) (u\<lparr>username := Some (renamed u)\<rparr>))"
    by (simp add: lookup_user_def find_unaffiliate idu)
  then show ?thesis by (simp add: renamed_spec idu)
qed

text \<open>The user without username, identifier 2, ends as \<open>-2\<close>.\<close>

theorem member_usernames_rewritten_witness:
  "\<exists>u'. lookup_user acme_deleted 2 = Some u' \<and> username u' = Some ''-2''"
proof -
  have row: "\<lparr>teamId = 42, userId = 2\<rparr> \<in> set (memberships acme)"
    by (simp add: acme_def)
  have team: "teamId \<lparr>teamId = 42, userId = 2\<rparr> = orgId (input delete42)"
    by (simp add: delete42_def)
  have orig: "lookup_user acme (userId \<lparr>teamId = 42, userId = 2\<rparr>) = Some nameless"
    by (simp add: lookup_user_def acme_def alice_def nameless_def)
  from member_usernames_rewritten [OF acme_run row team orig]
  show ?thesis
    by (simp add: nameless_def spec_username_def show_int_def digits.simps digit_char_def)
qed

text \<open>C3. For a found organization, whatever the outcome of the run, the calls
  the handler adds to the log start with the single domain release for the slug when
  the slug is non-empty, and hold no domain release at all otherwise; every later
  call is a username update or the team deletion, so the release precedes every
  username mutation.\<close>

theorem domain_released_once_and_first:
  assumes found: "team_findUnique (orgId (input opts)) w = Inr (Some fo)"
    and run: "adminDeleteHandler f opts w = (r, w')"
  shows "\<exists>rest. calls w' =
             calls w @ (case slug fo of None \<Rightarrow> []
                        | Some s \<Rightarrow> if s = [] then [] else [DeleteDomain s]) @ rest \<and>
           (\<forall>c \<in> set rest. \<not> is_DeleteDomain c \<and>
                            (is_UserUpdate c \<or> c = TeamDelete (orgId (input opts))))"
proof -
  let ?us = "map user (members fo)"
  let ?i = "orgId (input opts)"
  have rc: "release_calls (slug fo) =
      (case slug fo of None \<Rightarrow> [] | Some s \<Rightarrow> if s = [] then [] else [DeleteDomain s])"
    by (simp add: release_calls_def)
  from handler_found [OF found run]
  consider (domain) e where "releaseSlug f (slug fo) w = (Inl e, w')"
    | (rename) w1 e where "releaseSlug f (slug fo) w = (Inr (), w1)"
        "renameUsers f ?us w1 = (Inl e, w')"
    | (delete) w1 w2 x where "releaseSlug f (slug fo) w = (Inr (), w1)"
        "renameUsers f ?us w1 = (Inr (), w2)" "team_delete f ?i w2 = (x, w')"
    by blast
  then show ?thesis
  proof cases
    case domain
    from release_calls_log [OF domain] have "calls w' = calls w @ release_calls (slug fo) @ []"
      by simp
    then show ?thesis unfolding rc by (intro exI [of _ "[]"]) simp
  next
    case rename
    from renameUsers_Inl [OF rename(2)] obtain k where
      "calls w' = calls w1 @ map update_call (take (Suc k) ?us)" by auto
    with release_calls_log [OF rename(1)]
    have "calls w' = calls w @ release_calls (slug fo) @ map update_call (take (Suc k) ?us)"
      by simp
    then show ?thesis unfolding rc
      by (intro exI [of _ "map update_call (take (Suc k) ?us)"]) auto
  next
    case delete
    from renameUsers_Inr [OF delete(2)] have c2: "calls w2 = calls w1 @ map update_call ?us"
      by simp
    have "calls w' = calls w2 @ [TeamDelete ?i]"
    proof (cases x)
      case (Inl e)
      with delete(3) team_delete_Inl show ?thesis by fastforce
    next
      case (Inr y)
      with delete(3) team_delete_Inr [of f ?i w2 y w'] show ?thesis by simp
    qed
    with c2 release_calls_log [OF delete(1)]
    have "calls w' = calls w @ release_calls (slug fo) @ (map update_call ?us @ [TeamDelete ?i])"
      by simp
    then show ?thesis unfolding rc
      by (intro exI [of _ "map update_call ?us @ [TeamDelete ?i]"]) auto
  qed
qed

text \<open>Acme has the slug \<open>acme\<close>; with an empty slug no release is issued.\<close>

theorem domain_released_once_and_first_witness:
  "(\<exists>rest. calls acme_deleted = DeleteDomain ''acme'' # rest \<and>
       filter is_DeleteDomain rest = []) \<and>
   filter is_DeleteDomain (calls (snd (adminDeleteHandler no_faults delete42 unslugged))) = []"
proof -
  from domain_released_once_and_first [OF acme_is_found acme_run]
  have "\<exists>rest. calls acme_deleted = DeleteDomain ''acme'' # rest \<and>
          filter is_DeleteDomain rest = []"
    by (auto simp: acme_found_def acme_def filter_empty_conv)
  moreover
  from domain_released_once_and_first [OF unslugged_is_found sym [OF prod.collapse]]
  have "filter is_DeleteDomain (calls (snd (adminDeleteHandler no_faults delete42 unslugged))) = []"
    by (auto simp: acme_found_def acme_def unslugged_def filter_empty_conv)
  ultimately show ?thesis by blast
qed

text \<open>C4. After a successful deletion no team row and no membership row with the
  given team identifier is left (the membership rows go by the store's cascade).\<close>

theorem team_and_memberships_removed:
  assumes "adminDeleteHandler f opts w = (Inr r, w')"
  shows "(\<forall>t \<in> set (teams w'). team_id t \<noteq> orgId (input opts)) \<and>
         (\<forall>m \<in> set (memberships w'). teamId m \<noteq> orgId (input opts))"
proof -
  from handler_success [OF assms] obtain w2 where
    "team_delete f (orgId (input opts)) w2 = (Inr (), w')" by blast
  then show ?thesis by (rule team_delete_gone)
qed

theorem team_and_memberships_removed_witness:
  "filter (\<lambda>t. team_id t = 42) (teams acme_deleted) = [] \<and>
   filter (\<lambda>m. teamId m = 42) (memberships acme_deleted) = []"
  using team_and_memberships_removed [OF acme_run]
  by (simp add: delete42_def filter_empty_conv)

text \<open>C5. A successful deletion returns \<open>ok = true\<close> and the message
  \<open>Organization <name> deleted.\<close> with the name the organization had; for
  Acme this is \<open>Organization Acme deleted.\<close>.\<close>

theorem success_message_names_organization:
  assumes "adminDeleteHandler f opts w = (Inr r, w')"
  shows "\<exists>t. find (\<lambda>t. team_id t = orgId (input opts) \<and> isOrganization t) (teams w) = Some t \<and>
             r = \<lparr>ok = True, message = ''Organization '' @ name t @ '' deleted.''\<rparr> \<and>
             (name t = ''Acme'' \<longrightarrow> message r = ''Organization Acme deleted.'')"
proof -
  from handler_success [OF assms] obtain fo where
    fo: "team_findUnique (orgId (input opts)) w = Inr (Some fo)" and
    r: "r = \<lparr>ok = True, message = ''Organization '' @ name fo @ '' deleted.''\<rparr>"
    by blast
  from team_findUnique_Some [OF fo] obtain t where
    "find (\<lambda>t. team_id t = orgId (input opts) \<and> isOrganization t) (teams w) = Some t"
    "name fo = name t" by blast
  with r show ?thesis by auto
qed

theorem success_message_names_organization_witness:
  "find (\<lambda>t. team_id t = 42 \<and> isOrganization t) (teams acme) = Some acme_team \<and>
   name acme_team = ''Acme'' \<and>
   fst (adminDeleteHandler no_faults delete42 acme) =
     Inr \<lparr>ok = True, message = ''Organization Acme deleted.''\<rparr>"
proof -
  from success_message_names_organization [OF acme_run] obtain t where
    "find (\<lambda>t. team_id t = orgId (input delete42) \<and> isOrganization t) (teams acme) = Some t"
    "name t = ''Acme'' \<longrightarrow>
       message \<lparr>ok = True, message = ''Organization Acme deleted.''\<rparr> = ''Organization Acme deleted.''"
    by blast
  moreover have "find (\<lambda>t. team_id t = 42 \<and> isOrganization t) (teams acme) = Some acme_team"
    by (simp add: acme_def acme_team_def isOrganization_def)
  moreover have "name acme_team = ''Acme''" by (simp add: acme_team_def)
  ultimately show ?thesis using acme_run by simp
qed

text \<open>C6. The updates are issued one at a time in the order of the member list.
  When, after the domain step, the updates of the first \<open>k\<close> members have
  succeeded and the update of member \<open>k\<close> throws, the handler ends with that
  failure: the log shows the updates of positions \<open>0..k\<close> in list order after
  the domain step and nothing else; the members before \<open>k\<close> carry their new
  usernames; every user not among them, so every member at or after \<open>k\<close> of
  a list that names each user once, is unchanged; the domain stays released; the team
  and membership tables are as they were.\<close>

theorem failed_rename_leaves_partial_state:
  assumes found: "team_findUnique (orgId (input opts)) w = Inr (Some fo)"
    and domain: "releaseSlug f (slug fo) w = (Inr (), w1)"
    and k: "k < length (members fo)"
    and before: "renameUsers f (take k (map user (members fo))) w1 = (Inr (), wk)"
    and fails: "user_update f (user_id (map user (members fo) ! k))
                  (renamed (map user (members fo) ! k)) wk = (Inl e, w')"
  shows "adminDeleteHandler f opts w =
           (Inl (PersistenceFailure (update_call (map user (members fo) ! k))), w') \<and>
         calls w' = calls w @ release_calls (slug fo) @
                      map update_call (take (Suc k) (map user (members fo))) \<and>
         (\<forall>u \<in> set (take k (map user (members fo))).
            \<exists>u'. lookup_user w' (user_id u) = Some u' \<and>
                 username u' = Some (spec_username (username u) (user_id u))) \<and>
         (\<forall>j. j \<notin> user_id ` set (take k (map user (members fo))) \<longrightarrow>
              lookup_user w' j = lookup_user w j) \<and>
         (distinct (map user_id (map user (members fo))) \<longrightarrow>
            (\<forall>j. k \<le> j \<and> j < length (members fo) \<longrightarrow>
               lookup_user w' (user_id (map user (members fo) ! j)) =
                 Some (map user (members fo) ! j))) \<and>
         domains w' = (case slug fo of None \<Rightarrow> domains w
                       | Some s \<Rightarrow> if s = [] then domains w else removeAll s (domains w)) \<and>
         teams w' = teams w \<and> memberships w' = memberships w"
proof -
  let ?us = "map user (members fo)"
  from user_update_Inl [OF fails] have
    e: "e = PersistenceFailure (update_call (?us ! k))" and
    wf: "w' = logged (update_call (?us ! k)) wk"
    by (simp_all add: update_call_def)
  from failed_rename_aborts [OF found domain k before fails] e
  have run: "adminDeleteHandler f opts w = (Inl (PersistenceFailure (update_call (?us ! k))), w')"
    by simp
  from k have "take (Suc k) ?us = take k ?us @ [?us ! k]"
    by (simp add: take_Suc_conv_app_nth)
  with renameUsers_Inr [OF before] wf
  have "w' = w1\<lparr>users := rename_rows (take k ?us) (users w1),
                 calls := calls w1 @ map update_call (take (Suc k) ?us)\<rparr>"
    by (simp add: logged_def)
  from partial_rename_state [OF found domain this] run show ?thesis by blast
qed

text \<open>Acme with the second update failing: the handler ends with that failure,
  alice is renamed, the second member is not, the domain is gone, the team is still
  there.\<close>

theorem failed_rename_leaves_partial_state_witness:
  "adminDeleteHandler second_rename_fails delete42 acme =
     (Inl (PersistenceFailure (UserUpdate 2 ''-2'')), acme_interrupted) \<and>
   (\<exists>u'. lookup_user acme_interrupted 1 = Some u' \<and> username u' = Some ''alice-1'') \<and>
   lookup_user acme_interrupted 2 = Some nameless \<and>
   calls acme_interrupted =
     [DeleteDomain ''acme'', UserUpdate 1 ''alice-1'', UserUpdate 2 ''-2''] \<and>
   domains acme_interrupted = [] \<and> teams acme_interrupted = [acme_team]"
proof -
  have k: "1 < length (members acme_found)" by (simp add: acme_found_def)
  note state = failed_rename_leaves_partial_state
    [OF acme_is_found acme_release_step k acme_first_rename acme_second_rename]
  have us: "map user (members acme_found) = [alice, nameless]" by (simp add: acme_found_def)
  from state have "adminDeleteHandler second_rename_fails delete42 acme =
      (Inl (PersistenceFailure (UserUpdate 2 ''-2'')), acme_interrupted)"
    by (simp add: us update_call_def nameless_def renamed_def or_empty_def show_int_def
          digits.simps digit_char_def)
  moreover from state have "\<exists>u'. lookup_user acme_interrupted 1 = Some u' \<and>
      username u' = Some ''alice-1''"
    by (simp add: us alice_def spec_username_def show_int_def digits.simps digit_char_def)
  moreover have "lookup_user acme_interrupted 2 = Some nameless"
  proof -
    from state have "lookup_user acme_interrupted 2 = lookup_user acme 2"
      by (simp add: us alice_def)
    also have "\<dots> = Some nameless"
      by (simp add: lookup_user_def acme_def alice_def nameless_def)
    finally show ?thesis .
  qed
  moreover from state have "calls acme_interrupted =
      [DeleteDomain ''acme'', UserUpdate 1 ''alice-1'', UserUpdate 2 ''-2'']"
    by (simp add: acme_interrupted_def)
  moreover from state have "domains acme_interrupted = []"
    by (simp add: acme_found_def acme_def)
  moreover from state have "teams acme_interrupted = [acme_team]"
    by (simp add: acme_def)
  ultimately show ?thesis by blast
qed

text \<open>C7. Once a deletion has succeeded, any further invocation for the same
  identifier, whatever the faults and the session, is rejected with the FORBIDDEN
  error and changes nothing.\<close>

theorem second_invocation_rejected:
  assumes first: "adminDeleteHandler f opts w = (Inr r, w')"
    and same: "orgId (input opts') = orgId (input opts)"
  shows "adminDeleteHandler f' opts' w' =
           (Inl (TRPCError ''FORBIDDEN'' ''This team isnt a org or doesnt exist''), w')"
proof -
  from handler_success [OF first] obtain w2 where
    "team_delete f (orgId (input opts)) w2 = (Inr (), w')" by blast
  from team_delete_gone [OF this] have "\<forall>t \<in> set (teams w'). team_id t \<noteq> orgId (input opts')"
    by (simp add: same)
  moreover from handler_success [OF first] team_findUnique_Some have "int4 (orgId (input opts'))"
    unfolding same by blast
  ultimately have "team_findUnique (orgId (input opts')) w' = Inr None"
    by (auto simp: team_findUnique_None)
  from handler_not_found [OF this] show ?thesis by (simp add: forbidden_def)
qed

theorem second_invocation_rejected_witness:
  "adminDeleteHandler no_faults delete42 acme_deleted =
     (Inl (TRPCError ''FORBIDDEN'' ''This team isnt a org or doesnt exist''), acme_deleted)"
  by (rule second_invocation_rejected [OF acme_run refl])

text \<open>C8, amended. For users with pairwise distinct identifiers none of which is
  negative, the usernames written by the rename are pairwise distinct.\<close>

theorem renamed_collision_free:
  assumes nonneg: "\<forall>u \<in> set us. 0 \<le> user_id u"
    and ids: "distinct (map user_id us)"
  shows "distinct (map renamed us)"
proof -
  from ids have d: "distinct us" and inj: "inj_on user_id (set us)"
    by (simp_all add: distinct_map)
  have "inj_on renamed (set us)"
  proof (rule inj_onI)
    fix u v assume uv: "u \<in> set us" "v \<in> set us" "renamed u = renamed v"
    with nonneg have "user_id u = user_id v" by (intro renamed_id_inj) auto
    with inj uv show "u = v" by (auto dest: inj_onD)
  qed
  with d show ?thesis by (simp add: distinct_map)
qed

text \<open>Without the bound the claim fails: the minus sign of a negative identifier
  reads as the hyphen. The users \<open>{id: -5, username: null}\<close> and
  \<open>{id: 5, username: "-"}\<close> are both renamed to \<open>--5\<close>.\<close>

theorem renamed_collision_counterexample:
  "distinct (map user_id
     [\<lparr>user_id = - 5, username = None, email = ''a@example.com'', organizationId = None\<rparr>,
      \<lparr>user_id = 5, username = Some ''-'', email = ''b@example.com'', organizationId = None\<rparr>]) \<and>
   \<not> distinct (map renamed
     [\<lparr>user_id = - 5, username = None, email = ''a@example.com'', organizationId = None\<rparr>,
      \<lparr>user_id = 5, username = Some ''-'', email = ''b@example.com'', organizationId = None\<rparr>])"
  by (simp add: renamed_def or_empty_def show_int_def digits.simps digit_char_def)

theorem renamed_collision_free_witness:
  "distinct (map renamed [alice, nameless])"
proof -
  have nonneg: "\<forall>u \<in> set [alice, nameless]. 0 \<le> user_id u"
    by (simp add: alice_def nameless_def)
  have ids: "distinct (map user_id [alice, nameless])"
    by (simp add: alice_def nameless_def)
  from renamed_collision_free [OF nonneg ids] show ?thesis .
qed

text \<open>C9. Whenever the migration succeeds, the index \<open>users_username_key\<close>
  existed and is gone, the unique indexes on (username, organizationId) and on
  (email, username) exist, and \<open>users\<close> has the nullable column
  \<open>organizationId\<close>. Two user rows that share a username and differ in
  their organization never collide on the index on (username, organizationId).
  When the unique indexes kept by the migration allow them together, all unique
  indexes allow them together after the migration, unless they also share their
  email, which the new index on (email, username) refuses.\<close>

theorem migration_scopes_username_uniqueness:
  assumes "migration db = Inr db'"
  shows "(\<exists>i \<in> set (indexes db). iname i = ''users_username_key'') \<and>
         (\<forall>i \<in> set (indexes db'). iname i \<noteq> ''users_username_key'') \<and>
         \<lparr>iname = ''users_username_organizationId_key'', itable = ''users'',
          icolumns = [''username'', ''organizationId''], iunique = True\<rparr> \<in> set (indexes db') \<and>
         \<lparr>iname = ''users_email_username_key'', itable = ''users'',
          icolumns = [''email'', ''username''], iunique = True\<rparr> \<in> set (indexes db') \<and>
         (\<exists>tb. find_table ''users'' db' = Some tb \<and>
            \<lparr>cname = ''organizationId'', ctype = ''INTEGER'', notnull = False\<rparr> \<in> set (columns tb)) \<and>
         (\<forall>r1 r2.
            cell r1 ''username'' = cell r2 ''username'' \<and>
            cell r1 ''organizationId'' \<noteq> cell r2 ''organizationId'' \<longrightarrow>
            unique_holds [''username'', ''organizationId''] [r1, r2]) \<and>
         (\<forall>r1 r2.
            cell r1 ''username'' = cell r2 ''username'' \<and>
            cell r1 ''organizationId'' \<noteq> cell r2 ''organizationId'' \<and>
            (\<forall>i \<in> set (indexes db).
               iname i \<noteq> ''users_email_idx'' \<and> iname i \<noteq> ''users_username_key'' \<and>
               itable i = ''users'' \<and> iunique i \<longrightarrow> unique_holds (icolumns i) [r1, r2])
            \<longrightarrow>
            (admits db' ''users'' [r1, r2] \<longleftrightarrow>
               \<not> (cell r1 ''email'' = cell r2 ''email'' \<and> cell r1 ''email'' \<noteq> None \<and>
                  cell r1 ''username'' \<noteq> None)))"
proof -
  note m = migration_Inr [OF assms]
  from m have idx: "indexes db' =
           filter (\<lambda>i. iname i \<noteq> ''users_username_key'')
             (filter (\<lambda>i. iname i \<noteq> ''users_email_idx'') (indexes db)) @
           [\<lparr>iname = ''users_email_username_key'', itable = ''users'',
             icolumns = [''email'', ''username''], iunique = True\<rparr>,
            \<lparr>iname = ''users_username_organizationId_key'', itable = ''users'',
             icolumns = [''username'', ''organizationId''], iunique = True\<rparr>]"
    by blast
  have 1: "\<exists>i \<in> set (indexes db). iname i = ''users_username_key''" using m by blast
  have 2: "\<forall>i \<in> set (indexes db'). iname i \<noteq> ''users_username_key''"
    unfolding idx by auto
  have 3: "\<lparr>iname = ''users_username_organizationId_key'', itable = ''users'',
          icolumns = [''username'', ''organizationId''], iunique = True\<rparr> \<in> set (indexes db')"
    unfolding idx by simp
  have 4: "\<lparr>iname = ''users_email_username_key'', itable = ''users'',
          icolumns = [''email'', ''username''], iunique = True\<rparr> \<in> set (indexes db')"
    unfolding idx by simp
  have 5: "\<exists>tb. find_table ''users'' db' = Some tb \<and>
            \<lparr>cname = ''organizationId'', ctype = ''INTEGER'', notnull = False\<rparr> \<in> set (columns tb)"
    using m by (auto simp: with_column_def)
  have 6: "\<forall>r1 r2.
            cell r1 ''username'' = cell r2 ''username'' \<and>
            cell r1 ''organizationId'' \<noteq> cell r2 ''organizationId'' \<and>
            (\<forall>i \<in> set (indexes db).
               iname i \<noteq> ''users_email_idx'' \<and> iname i \<noteq> ''users_username_key'' \<and>
               itable i = ''users'' \<and> iunique i \<longrightarrow> unique_holds (icolumns i) [r1, r2])
            \<longrightarrow>
            (admits db' ''users'' [r1, r2] \<longleftrightarrow>
               \<not> (cell r1 ''email'' = cell r2 ''email'' \<and> cell r1 ''email'' \<noteq> None \<and>
                  cell r1 ''username'' \<noteq> None))"
    unfolding admits_def idx by (auto simp: conflict_def)
  have 7: "\<forall>r1 r2.
            cell r1 ''username'' = cell r2 ''username'' \<and>
            cell r1 ''organizationId'' \<noteq> cell r2 ''organizationId'' \<longrightarrow>
            unique_holds [''username'', ''organizationId''] [r1, r2]"
    by (simp add: conflict_def)
  from 1 2 3 4 5 6 7 show ?thesis by blast
qed

text \<open>Two users named rick, in organizations 1 and 2: refused before the
  migration, admitted after it.\<close>

theorem migration_scopes_username_uniqueness_witness:
  "\<exists>db'. migration before_organizations = Inr db' \<and>
         \<not> admits before_organizations ''users'' [rick_of_1, rick_of_2] \<and>
         admits db' ''users'' [rick_of_1, rick_of_2]"
proof -
  have "\<not> isl (migration before_organizations)"
    by code_simp
  then obtain db' where run: "migration before_organizations = Inr db'"
    by (cases "migration before_organizations") auto
  have before: "\<not> admits before_organizations ''users'' [rick_of_1, rick_of_2]"
    by (simp add: admits_def before_organizations_def rick_of_1_def rick_of_2_def
          conflict_def cell_def)
  have same: "cell rick_of_1 ''username'' = cell rick_of_2 ''username''"
    and differ: "cell rick_of_1 ''organizationId'' \<noteq> cell rick_of_2 ''organizationId''"
    and emails: "cell rick_of_1 ''email'' \<noteq> cell rick_of_2 ''email''"
    and kept: "\<forall>i \<in> set (indexes before_organizations).
           iname i \<noteq> ''users_email_idx'' \<and> iname i \<noteq> ''users_username_key'' \<and>
           itable i = ''users'' \<and> iunique i \<longrightarrow>
           unique_holds (icolumns i) [rick_of_1, rick_of_2]"
    by (simp_all add: before_organizations_def rick_of_1_def rick_of_2_def conflict_def cell_def)
  from migration_scopes_username_uniqueness [OF run] same differ kept emails
  have "admits db' ''users'' [rick_of_1, rick_of_2]" by blast
  with run before show ?thesis by blast
qed

text \<open>C10. The handler never reads the session: two invocations that differ
  only in the context return the same result and leave the same world, log of calls
  included.\<close>

theorem result_independent_of_session:
  "adminDeleteHandler f \<lparr>ctx = c1, input = i\<rparr> w = adminDeleteHandler f \<lparr>ctx = c2, input = i\<rparr> w"
  unfolding adminDeleteHandler_def AdminDeleteOption.simps ..

theorem result_independent_of_session_witness:
  "adminDeleteHandler no_faults \<lparr>ctx = another_admin, input = \<lparr>orgId = 42\<rparr>\<rparr> acme =
     (Inr \<lparr>ok = True, message = ''Organization Acme deleted.''\<rparr>, acme_deleted)"
  using result_independent_of_session [of no_faults another_admin "\<lparr>orgId = 42\<rparr>" acme admin]
    acme_run
  by (simp add: delete42_def)

end
